theory Spec2Isabelle
  imports Main
begin

section \<open>Strings\<close>

text \<open>
  A Python \<open>str\<close> is a sequence of Unicode code points. It is modelled as a list of
  natural numbers, one per code point, so that \<open>length\<close> counts what \<open>len\<close> counts and
  the em dash (U+2014) that \<open>process_tags\<close> writes is a single element.
  \<open>lit\<close> turns an ASCII literal of the source into its code points.
\<close>

type_synonym str = "nat list"

definition lit :: "string \<Rightarrow> str" where
  "lit cs = map of_char cs"

definition nl :: str where
  "nl = [10]"

definition emdash :: str where
  "emdash = [8212]"

text \<open>
  \<open>is_space\<close> is \<open>str.isspace\<close> on one code point, which is also what \<open>\s\<close> matches in a
  \<open>str\<close> pattern: the ASCII whitespace, the separators U+001C..U+001F, and the Unicode
  spaces.
\<close>

definition is_space :: "nat \<Rightarrow> bool" where
  "is_space c \<longleftrightarrow>
     (9 \<le> c \<and> c \<le> 13) \<or> (28 \<le> c \<and> c \<le> 32) \<or> c = 133 \<or> c = 160 \<or> c = 5760 \<or>
     (8192 \<le> c \<and> c \<le> 8202) \<or> c = 8232 \<or> c = 8233 \<or> c = 8239 \<or> c = 8287 \<or> c = 12288"

text \<open>The class \<open>(?:\t| )\<close>.\<close>

definition is_tabsp :: "nat \<Rightarrow> bool" where
  "is_tabsp c \<longleftrightarrow> c = 9 \<or> c = 32"

text \<open>The class \<open>[a-zA-Z]\<close>.\<close>

definition is_alpha :: "nat \<Rightarrow> bool" where
  "is_alpha c \<longleftrightarrow> (65 \<le> c \<and> c \<le> 90) \<or> (97 \<le> c \<and> c \<le> 122)"

text \<open>The class \<open>[\r\n]\<close>.\<close>

definition is_crlf :: "nat \<Rightarrow> bool" where
  "is_crlf c \<longleftrightarrow> c = 13 \<or> c = 10"

text \<open>\<open>s.strip()\<close>.\<close>

definition strip :: "str \<Rightarrow> str" where
  "strip s = rev (dropWhile is_space (rev (dropWhile is_space s)))"

text \<open>\<open>s.startswith(p)\<close>.\<close>

definition startswith :: "str \<Rightarrow> str \<Rightarrow> bool" where
  "startswith s p \<longleftrightarrow> take (length p) s = p"

text \<open>\<open>s.split('\n')\<close>: the pieces between line feeds, at least one piece.\<close>

fun split_lines :: "str \<Rightarrow> str list" where
  "split_lines [] = [[]]"
| "split_lines (c # cs) =
     (if c = 10 then [] # split_lines cs
      else (case split_lines cs of p # ps \<Rightarrow> (c # p) # ps | [] \<Rightarrow> [[c]]))"

text \<open>\<open>sep.join(xs)\<close>.\<close>

fun join :: "str \<Rightarrow> str list \<Rightarrow> str" where
  "join sep [] = []"
| "join sep [x] = x"
| "join sep (x # y # ys) = x @ sep @ join sep (y # ys)"

text \<open>
  \<open>s.replace(pat, rep)\<close>: the occurrences of \<open>pat\<close> from left to right, not overlapping.
  With an empty \<open>pat\<close> Python puts \<open>rep\<close> before every character and at the end.
\<close>

function str_replace :: "str \<Rightarrow> str \<Rightarrow> str \<Rightarrow> str" where
  "str_replace pat rep s =
     (if pat = [] then rep @ concat (map (\<lambda>c. c # rep) s)
      else if startswith s pat then rep @ str_replace pat rep (drop (length pat) s)
      else (case s of [] \<Rightarrow> [] | c # cs \<Rightarrow> c # str_replace pat rep cs))"
  by pat_completeness auto
termination
proof (relation "measure (\<lambda>(pat, rep, s). length s)")
  show "wf (measure (\<lambda>(pat, rep, s). length s))" by simp
next
  fix pat rep s :: str
  assume "pat \<noteq> []" and "startswith s pat"
  then have "s \<noteq> []" by (auto simp: startswith_def)
  with \<open>pat \<noteq> []\<close>
  show "((pat, rep, drop (length pat) s), (pat, rep, s)) \<in> measure (\<lambda>(pat, rep, s). length s)"
    by simp
next
  fix pat rep s :: str and c cs
  assume "s = c # cs"
  then show "((pat, rep, cs), (pat, rep, s)) \<in> measure (\<lambda>(pat, rep, s). length s)"
    by simp
qed

declare str_replace.simps [simp del]

text \<open>
  \<open>key.title()\<close> on ASCII text: a letter that follows a letter is lowered, any other
  letter is raised. \<open>process_tags\<close> calls it only on keys equal to one of its ASCII
  literals, where this is all of \<open>str.title\<close>.
\<close>

definition to_upper :: "nat \<Rightarrow> nat" where
  "to_upper c = (if 97 \<le> c \<and> c \<le> 122 then c - 32 else c)"

definition to_lower :: "nat \<Rightarrow> nat" where
  "to_lower c = (if 65 \<le> c \<and> c \<le> 90 then c + 32 else c)"

fun title_from :: "bool \<Rightarrow> str \<Rightarrow> str" where
  "title_from prev_cased [] = []"
| "title_from prev_cased (c # cs) =
     (if prev_cased then to_lower c else to_upper c) # title_from (is_alpha c) cs"

definition title :: "str \<Rightarrow> str" where
  "title s = title_from False s"

section \<open>Cleaning text\<close>

text \<open>\<open>re.sub(r'\s+', ' ', line)\<close>: every maximal run of whitespace becomes one space.\<close>

fun collapse_ws :: "bool \<Rightarrow> str \<Rightarrow> str" where
  "collapse_ws in_run [] = []"
| "collapse_ws in_run (c # cs) =
     (if is_space c then (if in_run then collapse_ws True cs else 32 # collapse_ws True cs)
      else c # collapse_ws False cs)"

definition clean_line :: "str \<Rightarrow> str" where
  "clean_line line = collapse_ws False (strip line)"

text \<open>\<open>re.sub(r'[\n\r\t]', ' ', line)\<close> after \<open>_clean_line\<close>.\<close>

definition clean_single_line :: "str \<Rightarrow> str" where
  "clean_single_line line =
     map (\<lambda>c. if c = 10 \<or> c = 13 \<or> c = 9 then 32 else c) (clean_line line)"

section \<open>Splitting a tag value\<close>

text \<open>
  \<open>re.split(r'\s+', s, maxsplit)\<close>. The limit is \<open>None\<close> for Python's \<open>maxsplit = 0\<close>
  (no limit) and \<open>Some k\<close> for \<open>k\<close> splits still allowed.
\<close>

function re_split_ws :: "nat option \<Rightarrow> str \<Rightarrow> str list" where
  "re_split_ws lim s =
     (let r = dropWhile (\<lambda>c. \<not> is_space c) s in
      if r = [] \<or> lim = Some 0 then [s]
      else takeWhile (\<lambda>c. \<not> is_space c) s
             # re_split_ws (map_option (\<lambda>k. k - 1) lim) (dropWhile is_space r))"
  by pat_completeness auto
termination
proof (relation "measure (\<lambda>(lim, s). length s)")
  show "wf (measure (\<lambda>(lim, s). length s))" by simp
next
  fix lim :: "nat option" and s r :: str
  assume r: "r = dropWhile (\<lambda>c. \<not> is_space c) s" and ne: "\<not> (r = [] \<or> lim = Some 0)"
  from ne obtain c cs where rc: "r = c # cs" by (cases r) auto
  have "is_space c" using r rc by (metis hd_dropWhile list.sel(1) list.distinct(1))
  then have "length (dropWhile is_space r) \<le> length cs"
    using rc by (simp add: length_dropWhile_le)
  moreover have "length r \<le> length s" using r by (simp add: length_dropWhile_le)
  ultimately have "length (dropWhile is_space r) < length s" using rc by simp
  then show "((map_option (\<lambda>k. k - 1) lim, dropWhile is_space r), (lim, s))
               \<in> measure (\<lambda>(lim, s). length s)"
    by simp
qed

declare re_split_ws.simps [simp del]

text \<open>
  \<open>_tokenize(text, r'\s+', limit)\<close>, the only pattern the program passes. \<open>maxsplit\<close> is
  \<open>limit - 1\<close>: no limit when that is 0, no split at all when it is negative.
\<close>

definition tokenize :: "str \<Rightarrow> nat \<Rightarrow> str list" where
  "tokenize text limit =
     (if text = [] then replicate limit []
      else
        let tokens = (if limit = 0 then [strip text]
                      else re_split_ws (if limit = 1 then None else Some (limit - 1)) (strip text))
        in take limit (tokens @ replicate limit []))"

section \<open>Tags and the group buffer\<close>

record tag =
  key :: str
  val :: str

text \<open>
  The buffer is a Python \<open>dict\<close>, which keeps its keys in insertion order: an association
  list with distinct keys, new keys at the end. An entry is \<open>None\<close> for a marker tag.
\<close>

type_synonym buffer = "(str \<times> str option list) list"

fun add_to_buffer :: "str \<Rightarrow> str option \<Rightarrow> buffer \<Rightarrow> buffer" where
  "add_to_buffer k v [] = [(k, [v])]"
| "add_to_buffer k v ((k', es) # b) =
     (if k' = k then (k', es @ [v]) # b else (k', es) # add_to_buffer k v b)"

datatype error = IndexError

text \<open>\<open>xs[i]\<close> for \<open>i \<ge> 0\<close>.\<close>

definition index :: "'a list \<Rightarrow> nat \<Rightarrow> error + 'a" where
  "index xs i = (if i < length xs then Inr (xs ! i) else Inl IndexError)"

text \<open>The f-string \<open>`{tokens[0]}` \<emdash> {tokens[1]}\<close>.\<close>

definition fmt_split :: "str list \<Rightarrow> error + str" where
  "fmt_split tokens =
     (case index tokens 0 of Inl e \<Rightarrow> Inl e
      | Inr t0 \<Rightarrow>
         (case index tokens 1 of Inl e \<Rightarrow> Inl e
          | Inr t1 \<Rightarrow> Inr (lit ''`'' @ t0 @ lit ''` '' @ emdash @ lit '' '' @ t1)))"

definition process_tags :: "tag \<Rightarrow> buffer \<Rightarrow> error + buffer" where
  "process_tags t assoc_buffer =
     (if key t \<in> set [lit ''abstract'', lit ''access'', lit ''author'', lit ''copyright'',
                      lit ''exports'', lit ''license'', lit ''link'', lit ''package'',
                      lit ''since'', lit ''static'', lit ''subpackage'']
      then Inr (add_to_buffer (title (key t)) (Some (val t)) assoc_buffer)
      else if key t \<in> set [lit ''constructor'', lit ''deprecated'', lit ''private'']
      then Inr (add_to_buffer (title (key t)) None assoc_buffer)
      else if key t \<in> set [lit ''exception'', lit ''throws'']
      then (case fmt_split (tokenize (val t) 2) of Inl e \<Rightarrow> Inl e
            | Inr entry \<Rightarrow> Inr (add_to_buffer (lit ''Exceptions'') (Some entry) assoc_buffer))
      else if key t = lit ''param''
      then (case fmt_split (tokenize (val t) 2) of Inl e \<Rightarrow> Inl e
            | Inr entry \<Rightarrow> Inr (add_to_buffer (lit ''Parameters'') (Some entry) assoc_buffer))
      else if key t \<in> set [lit ''return'', lit ''returns'']
      then Inr (add_to_buffer (lit ''Returns'') (Some (val t)) assoc_buffer)
      else if key t = lit ''see''
      then Inr (add_to_buffer (lit ''See also'') (Some (val t)) assoc_buffer)
      else if key t = lit ''this''
      then Inr (add_to_buffer (lit ''This'') (Some (lit ''`'' @ val t @ lit ''`'')) assoc_buffer)
      else if key t = lit ''todo''
      then Inr (add_to_buffer (lit ''To-do'') (Some (val t)) assoc_buffer)
      else if key t = lit ''version''
      then Inr (add_to_buffer (lit ''Version'') (Some (val t)) assoc_buffer)
      else Inr assoc_buffer)"

section \<open>Rendering a tag group\<close>

text \<open>An entry inside an f-string: \<open>None\<close> prints as the word None.\<close>

definition fmt_entry :: "str option \<Rightarrow> str" where
  "fmt_entry e = (case e of None \<Rightarrow> lit ''None'' | Some s \<Rightarrow> s)"

definition from_tag_group :: "str \<Rightarrow> str option list \<Rightarrow> str" where
  "from_tag_group name entries =
     nl @
     (if length entries = 1 \<and> entries ! 0 = None
      then lit '' * **'' @ name @ lit ''**''
      else lit '' * **'' @ name @ lit '':**'' @
           (if length entries > 1
            then concat (map (\<lambda>entry. nl @ lit ''   * '' @ fmt_entry entry) entries)
            else if length entries = 1 then lit '' '' @ fmt_entry (entries ! 0)
            else []))"

section \<open>Extracting tags\<close>

text \<open>
  \<open>re.sub(r'[\r\n]{1,2}(?:\t| )*?\*(?:\t| )*', '\n\n     ', value)\<close>. A match starts at
  a CR or LF, takes a second one when it follows, skips tabs and spaces up to a star, and
  takes the tabs and spaces after the star. Neither a tab, a space nor a star is a CR or LF,
  so taking one line break where two are there never matches. \<open>wrap_match\<close> gives the
  text after a match at the start of its argument.
\<close>

definition wrap_match :: "str \<Rightarrow> str option" where
  "wrap_match s =
     (case s of [] \<Rightarrow> None
      | c # cs \<Rightarrow>
         if is_crlf c then
           (let cs' = (case cs of [] \<Rightarrow> [] | d # ds \<Rightarrow> if is_crlf d then ds else cs) in
            case dropWhile is_tabsp cs' of [] \<Rightarrow> None
            | e # es \<Rightarrow> if e = 42 then Some (dropWhile is_tabsp es) else None)
         else None)"

lemma wrap_match_shorter: "wrap_match s = Some r \<Longrightarrow> length r < length s"
proof -
  have dw: "\<And>xs :: str. length (dropWhile is_tabsp xs) \<le> length xs"
    by (simp add: length_dropWhile_le)
  assume m: "wrap_match s = Some r"
  then obtain c cs where s: "s = c # cs" by (cases s) (auto simp: wrap_match_def)
  define cs' where "cs' = (case cs of [] \<Rightarrow> [] | d # ds \<Rightarrow> if is_crlf d then ds else cs)"
  have le: "length cs' \<le> length cs" by (auto simp: cs'_def split: list.splits)
  from m s obtain es where es: "dropWhile is_tabsp cs' = 42 # es" and r: "r = dropWhile is_tabsp es"
    by (auto simp: wrap_match_def Let_def cs'_def [symmetric] split: if_splits list.splits)
  have "length r \<le> length es" using r dw by simp
  moreover have "length (dropWhile is_tabsp cs') \<le> length cs'" by (rule dw)
  ultimately show ?thesis using es le s by simp
qed

function sub_wraps :: "str \<Rightarrow> str" where
  "sub_wraps s =
     (case wrap_match s of
        Some r \<Rightarrow> nl @ nl @ lit ''     '' @ sub_wraps r
      | None \<Rightarrow> (case s of [] \<Rightarrow> [] | c # cs \<Rightarrow> c # sub_wraps cs))"
  by pat_completeness auto
termination
  by (relation "measure length") (auto dest: wrap_match_shorter)

declare sub_wraps.simps [simp del]

text \<open>
  \<open>re.match(r'^(?:\t| )*?@([a-zA-Z]+)([\s\S]*)', line)\<close>: tabs and spaces, an at sign,
  the longest run of ASCII letters, which must not be empty, and all the rest.
\<close>

definition tag_match :: "str \<Rightarrow> (str \<times> str) option" where
  "tag_match line =
     (case dropWhile is_tabsp line of [] \<Rightarrow> None
      | c # cs \<Rightarrow>
         if c = 64 \<and> takeWhile is_alpha cs \<noteq> []
         then Some (takeWhile is_alpha cs, dropWhile is_alpha cs)
         else None)"

fun get_doc_tags :: "str list \<Rightarrow> tag list" where
  "get_doc_tags [] = []"
| "get_doc_tags (line # doc_lines) =
     (case tag_match line of
        Some (k, v) \<Rightarrow>
          \<lparr>key = clean_single_line k, val = sub_wraps (strip v)\<rparr> # get_doc_tags doc_lines
      | None \<Rightarrow> get_doc_tags doc_lines)"

section \<open>The description\<close>

text \<open>\<open>re.sub(r'^\s*\*\s*', '', line)\<close>: only at the start of the string.\<close>

definition sub_star_prefix :: "str \<Rightarrow> str" where
  "sub_star_prefix line =
     (case dropWhile is_space line of [] \<Rightarrow> line
      | c # cs \<Rightarrow> if c = 42 then dropWhile is_space cs else line)"

text \<open>\<open>re.sub(r'^\s*/\*+\s*', '', line)\<close>.\<close>

definition sub_open_prefix :: "str \<Rightarrow> str" where
  "sub_open_prefix line =
     (case dropWhile is_space line of
        c # d # ds \<Rightarrow>
          if c = 47 \<and> d = 42 then dropWhile is_space (dropWhile (\<lambda>x. x = 42) ds) else line
      | _ \<Rightarrow> line)"

text \<open>
  \<open>re.sub(r'\s*\*+/\s*$', '', line)\<close>: the pattern matches at a position when the text
  from there to the end is whitespace, stars, a slash and whitespace; the leftmost such
  position wins and everything from it on is removed.
\<close>

definition close_match :: "str \<Rightarrow> bool" where
  "close_match s =
     (case dropWhile is_space s of [] \<Rightarrow> False
      | c # cs \<Rightarrow>
         c = 42 \<and>
         (case dropWhile (\<lambda>x. x = 42) cs of [] \<Rightarrow> False
          | d # ds \<Rightarrow> d = 47 \<and> list_all is_space ds))"

fun sub_close_suffix :: "str \<Rightarrow> str" where
  "sub_close_suffix [] = []"
| "sub_close_suffix (c # cs) = (if close_match (c # cs) then [] else c # sub_close_suffix cs)"

text \<open>
  \<open>re.sub(r'<\s*?code\s*?>(.*?)<\s*?/\s*?code\s*?>', r'`\1`', html)\<close>. \<open>code_open\<close> and
  \<open>code_close\<close> give the text after the opening and the closing tag at the start of their
  argument; \<open>code_body\<close> looks for the nearest closing tag, over characters other than a
  line feed, and gives the text before it and the text after it.
\<close>

definition code_word :: "str \<Rightarrow> str option" where
  "code_word s =
     (let r = dropWhile is_space s in
      if startswith r (lit ''code'') then
        (case dropWhile is_space (drop 4 r) of [] \<Rightarrow> None
         | c # cs \<Rightarrow> if c = 62 then Some cs else None)
      else None)"

definition code_open :: "str \<Rightarrow> str option" where
  "code_open s = (case s of [] \<Rightarrow> None | c # cs \<Rightarrow> if c = 60 then code_word cs else None)"

definition code_close :: "str \<Rightarrow> str option" where
  "code_close s =
     (case s of [] \<Rightarrow> None
      | c # cs \<Rightarrow>
         if c = 60 then
           (case dropWhile is_space cs of [] \<Rightarrow> None
            | d # ds \<Rightarrow> if d = 47 then code_word ds else None)
         else None)"

fun code_body :: "str \<Rightarrow> (str \<times> str) option" where
  "code_body [] = None"
| "code_body (c # cs) =
     (case code_close (c # cs) of
        Some r \<Rightarrow> Some ([], r)
      | None \<Rightarrow>
          if c = 10 then None
          else (case code_body cs of None \<Rightarrow> None | Some (b, r) \<Rightarrow> Some (c # b, r)))"

definition code_match :: "str \<Rightarrow> (str \<times> str) option" where
  "code_match s = (case code_open s of None \<Rightarrow> None | Some r \<Rightarrow> code_body r)"

lemma code_word_shorter: "code_word s = Some r \<Longrightarrow> length r < length s"
proof -
  assume m: "code_word s = Some r"
  define t where "t = dropWhile is_space s"
  define w where "w = dropWhile is_space (drop 4 t)"
  have "length t \<le> length s" by (simp add: t_def length_dropWhile_le)
  moreover have "length w \<le> length t" unfolding w_def
    by (rule order_trans [OF length_dropWhile_le]) simp
  moreover from m obtain c where "w = c # r"
    by (auto simp: code_word_def Let_def t_def [symmetric] w_def [symmetric]
             split: if_splits list.splits)
  ultimately show ?thesis by simp
qed

lemma code_close_shorter: "code_close s = Some r \<Longrightarrow> length r < length s"
proof -
  assume m: "code_close s = Some r"
  then obtain cs ds where s: "s = 60 # cs" and d: "dropWhile is_space cs = 47 # ds"
    and w: "code_word ds = Some r"
    by (auto simp: code_close_def split: list.splits if_splits)
  have "length (dropWhile is_space cs) \<le> length cs" by (simp add: length_dropWhile_le)
  with d have "length ds < length cs" by simp
  with code_word_shorter [OF w] s show ?thesis by simp
qed

lemma code_body_shorter: "code_body s = Some (b, r) \<Longrightarrow> length r < length s"
proof (induction s arbitrary: b)
  case Nil
  then show ?case by simp
next
  case (Cons c cs)
  show ?case
  proof (cases "code_close (c # cs)")
    case (Some r')
    with Cons.prems have "r' = r" by simp
    with code_close_shorter [OF Some] show ?thesis by simp
  next
    case None
    with Cons.prems obtain b' where "code_body cs = Some (b', r)"
      by (auto split: if_splits option.splits)
    from Cons.IH [OF this] show ?thesis by simp
  qed
qed

lemma code_match_shorter: "code_match s = Some (b, r) \<Longrightarrow> length r < length s"
proof -
  assume m: "code_match s = Some (b, r)"
  then obtain r0 where o: "code_open s = Some r0" and bd: "code_body r0 = Some (b, r)"
    by (auto simp: code_match_def split: option.splits)
  from o obtain cs where "s = 60 # cs" and "code_word cs = Some r0"
    by (auto simp: code_open_def split: list.splits if_splits)
  with code_word_shorter [of cs r0] code_body_shorter [OF bd] show ?thesis by simp
qed

function replace_html_with_markdown :: "str \<Rightarrow> str" where
  "replace_html_with_markdown html =
     (case code_match html of
        Some (b, r) \<Rightarrow> lit ''`'' @ b @ lit ''`'' @ replace_html_with_markdown r
      | None \<Rightarrow> (case html of [] \<Rightarrow> [] | c # cs \<Rightarrow> c # replace_html_with_markdown cs))"
  by pat_completeness auto
termination
  by (relation "measure length") (auto dest: code_match_shorter)

declare replace_html_with_markdown.simps [simp del]

text \<open>The body of the loop over the lines of the description.\<close>

definition clean_doc_line :: "str \<Rightarrow> str" where
  "clean_doc_line line = sub_close_suffix (sub_open_prefix (sub_star_prefix line))"

definition get_doc_description :: "str \<Rightarrow> str" where
  "get_doc_description doc_lines =
     (let clean_lines = map strip (filter (\<lambda>l. strip l \<noteq> [])
                                      (map clean_doc_line (split_lines doc_lines)));
          description = replace_html_with_markdown (clean_line (join (lit '' '') clean_lines))
      in str_replace (lit ''</p>'') (nl @ nl) (str_replace (lit ''<p>'') (nl @ nl) description))"

section \<open>Rendering a section\<close>

record doc_section =
  line :: str
  doc :: str

text \<open>
  \<open>re.sub(r'[{;]\s*$', '', line)\<close>: a brace or semicolon with nothing but whitespace
  between it and the end of the string is removed together with that whitespace.
\<close>

fun sub_brace_suffix :: "str \<Rightarrow> str" where
  "sub_brace_suffix [] = []"
| "sub_brace_suffix (c # cs) =
     (if (c = 123 \<or> c = 59) \<and> list_all is_space cs then [] else c # sub_brace_suffix cs)"

definition get_field_declaration :: "str \<Rightarrow> str" where
  "get_field_declaration l = clean_single_line (sub_brace_suffix l)"

text \<open>
  \<open>re.split(r'^(?:\t| )*?\*(?:\t| )*?(?=@)', doc, flags=re.M)\<close>. A separator starts at the
  start of a line (the start of the text or after a line feed): tabs and spaces, a star,
  tabs and spaces, and then an at sign, which stays in the next piece. \<open>tag_sep_match\<close>
  gives the text after a separator at the start of its argument; \<open>split_at_tags\<close> takes a
  flag that says whether its argument starts a line.
\<close>

definition tag_sep_match :: "str \<Rightarrow> str option" where
  "tag_sep_match s =
     (case dropWhile is_tabsp s of [] \<Rightarrow> None
      | c # cs \<Rightarrow>
         if c = 42 then
           (case dropWhile is_tabsp cs of [] \<Rightarrow> None
            | d # ds \<Rightarrow> if d = 64 then Some (d # ds) else None)
         else None)"

lemma tag_sep_match_shorter: "tag_sep_match s = Some r \<Longrightarrow> length r < length s"
proof -
  assume m: "tag_sep_match s = Some r"
  then obtain cs where a: "dropWhile is_tabsp s = 42 # cs" and b: "dropWhile is_tabsp cs = r"
    by (auto simp: tag_sep_match_def split: list.splits if_splits)
  have "length (dropWhile is_tabsp s) \<le> length s" by (simp add: length_dropWhile_le)
  moreover have "length (dropWhile is_tabsp cs) \<le> length cs" by (simp add: length_dropWhile_le)
  ultimately show ?thesis using a b by simp
qed

function split_at_tags :: "bool \<Rightarrow> str \<Rightarrow> str list" where
  "split_at_tags bol s =
     (case (if bol then tag_sep_match s else None) of
        Some r \<Rightarrow> [] # split_at_tags False r
      | None \<Rightarrow>
          (case s of [] \<Rightarrow> [[]]
           | c # cs \<Rightarrow>
              (case split_at_tags (c = 10) cs of p # ps \<Rightarrow> (c # p) # ps | [] \<Rightarrow> [[c]])))"
  by pat_completeness auto
termination
  by (relation "measure (\<lambda>(bol, s). length s)")
     (auto dest: tag_sep_match_shorter split: if_splits)

declare split_at_tags.simps [simp del]

text \<open>The loop \<open>for tag in tags: fn_add_tags_markdown(tag, assoc_buffer)\<close>.\<close>

fun add_all_tags :: "(tag \<Rightarrow> buffer \<Rightarrow> error + buffer) \<Rightarrow> tag list \<Rightarrow> buffer \<Rightarrow> error + buffer" where
  "add_all_tags fn_add_tags_markdown [] assoc_buffer = Inr assoc_buffer"
| "add_all_tags fn_add_tags_markdown (t # ts) assoc_buffer =
     (case fn_add_tags_markdown t assoc_buffer of
        Inl e \<Rightarrow> Inl e
      | Inr b \<Rightarrow> add_all_tags fn_add_tags_markdown ts b)"

text \<open>The loop \<open>for name, entries in assoc_buffer.items()\<close>.\<close>

definition from_tag_groups :: "buffer \<Rightarrow> str" where
  "from_tag_groups assoc_buffer = concat (map (\<lambda>(name, entries). from_tag_group name entries) assoc_buffer)"

definition from_section ::
  "doc_section \<Rightarrow> int \<Rightarrow> (tag \<Rightarrow> buffer \<Rightarrow> error + buffer) \<Rightarrow> error + str" where
  "from_section sec headings_level fn_add_tags_markdown =
     (let field = get_field_declaration (line sec) in
      if field = [] then Inr []
      else
        let out1 = nl @ nl @ replicate (nat (headings_level + 1)) 35 @ lit '' `'' @ field @ lit ''`'' in
        (case split_at_tags True (doc sec) of
           [] \<Rightarrow> Inl IndexError
         | raw_main_description # raw_tags \<Rightarrow>
            let description = get_doc_description raw_main_description;
                out2 = (if description \<noteq> [] then out1 @ nl @ nl @ description else out1);
                tags = get_doc_tags raw_tags
            in if tags \<noteq> [] then
                 (case add_all_tags fn_add_tags_markdown tags [] of
                    Inl e \<Rightarrow> Inl e
                  | Inr assoc_buffer \<Rightarrow> Inr (out2 @ nl @ from_tag_groups assoc_buffer))
               else Inr out2))"

section \<open>Extracting sections\<close>

text \<open>The first \<open>*/\<close> in a text: what is before it and what is after it.\<close>

fun find_comment_close :: "str \<Rightarrow> (str \<times> str) option" where
  "find_comment_close (c # d # cs) =
     (if c = 42 \<and> d = 47 then Some ([], cs)
      else (case find_comment_close (d # cs) of
              None \<Rightarrow> None
            | Some (a, b) \<Rightarrow> Some (c # a, b)))"
| "find_comment_close _ = None"

text \<open>
  \<open>/\*\*(.*?)\*/\<close> with \<open>re.DOTALL\<close> at the start of a text: group 1 and the text after
  the match.
\<close>

definition comment_match :: "str \<Rightarrow> (str \<times> str) option" where
  "comment_match s =
     (if startswith s (lit ''/**'') then find_comment_close (drop 3 s) else None)"

text \<open>
  \<open>/\*\*(.*?)\*/\s*([^{;]*(?:[{;]|$))\<close> with \<open>re.DOTALL\<close> at the start of a text:
  group 1, group 2 and the text after the match. After the comment the pattern takes all
  the whitespace, then all the characters that are neither a brace nor a semicolon, then
  the brace or semicolon that stops them, or nothing at the end of the text. This tail
  matches whatever follows the comment, so the nearest \<open>*/\<close> ends group 1.
\<close>

definition is_stop :: "nat \<Rightarrow> bool" where
  "is_stop c \<longleftrightarrow> c = 123 \<or> c = 59"

definition primary_match :: "str \<Rightarrow> (str \<times> str \<times> str) option" where
  "primary_match s =
     (case comment_match s of
        None \<Rightarrow> None
      | Some (g1, after) \<Rightarrow>
          let t = dropWhile is_space after;
              run = takeWhile (\<lambda>c. \<not> is_stop c) t
          in (case dropWhile (\<lambda>c. \<not> is_stop c) t of
                [] \<Rightarrow> Some (g1, run, [])
              | d # ds \<Rightarrow> Some (g1, run @ [d], ds)))"

lemma find_comment_close_shorter:
  "find_comment_close s = Some (a, b) \<Longrightarrow> length b < length s"
  by (induction s arbitrary: a rule: find_comment_close.induct)
     (auto split: if_splits option.splits)

lemma comment_match_shorter: "comment_match s = Some (g, r) \<Longrightarrow> length r < length s"
  by (auto simp: comment_match_def split: if_splits dest!: find_comment_close_shorter)

lemma primary_match_shorter: "primary_match s = Some (g1, g2, r) \<Longrightarrow> length r < length s"
proof -
  assume m: "primary_match s = Some (g1, g2, r)"
  then obtain after where c: "comment_match s = Some (g1, after)"
    by (cases "comment_match s") (auto simp: primary_match_def Let_def split: list.splits)
  define t where "t = dropWhile is_space after"
  have "length (dropWhile (\<lambda>c. \<not> is_stop c) t) \<le> length t" by (simp add: length_dropWhile_le)
  moreover have "length t \<le> length after" by (simp add: t_def length_dropWhile_le)
  moreover from m c have "r = [] \<or> (\<exists>d. dropWhile (\<lambda>c. \<not> is_stop c) t = d # r)"
    by (auto simp: primary_match_def Let_def t_def [symmetric] split: list.splits)
  ultimately have "length r \<le> length after" by auto
  with comment_match_shorter [OF c] show ?thesis by simp
qed

text \<open>
  \<open>re.finditer\<close>: the matches from left to right, each search starting where the last
  match ended, and one character further where the pattern does not match.
\<close>

function primary_matches :: "str \<Rightarrow> (str \<times> str) list" where
  "primary_matches code =
     (case code of [] \<Rightarrow> []
      | c # cs \<Rightarrow>
         (case primary_match code of
            Some (g1, g2, r) \<Rightarrow> (g1, g2) # primary_matches r
          | None \<Rightarrow> primary_matches cs))"
  by pat_completeness auto
termination
  by (relation "measure length") (auto dest: primary_match_shorter)

declare primary_matches.simps [simp del]

text \<open>The matches of the fallback pattern: group 1 and \<open>code[match.end():]\<close>.\<close>

function fallback_matches :: "str \<Rightarrow> (str \<times> str) list" where
  "fallback_matches code =
     (case code of [] \<Rightarrow> []
      | c # cs \<Rightarrow>
         (case comment_match code of
            Some (g1, r) \<Rightarrow> (g1, r) # fallback_matches r
          | None \<Rightarrow> fallback_matches cs))"
  by pat_completeness auto
termination
  by (relation "measure length") (auto dest: comment_match_shorter)

declare fallback_matches.simps [simp del]

text \<open>
  The body of the loop over the primary matches: \<open>None\<close> where the source says
  \<open>continue\<close>, the section it appends otherwise.
\<close>

definition primary_section :: "str \<times> str \<Rightarrow> doc_section option" where
  "primary_section m =
     (let doc_comment = fst m; code_section = snd m in
      if doc_comment = [] \<or> code_section = [] then None
      else
        let code_section = strip code_section in
        if startswith code_section (lit ''import'') then None
        else
          let doc_comment = (if \<not> startswith (strip doc_comment) (lit ''*'')
                             then lit ''* '' @ strip doc_comment else doc_comment)
          in Some \<lparr>line = code_section, doc = doc_comment\<rparr>)"

text \<open>
  The body of the loop over the fallback matches: the first line after the comment that
  is not blank, if there is one.
\<close>

definition fallback_section :: "str \<times> str \<Rightarrow> doc_section option" where
  "fallback_section m =
     (let doc_comment = fst m in
      if doc_comment \<noteq> [] then
        (case filter (\<lambda>l. strip l \<noteq> []) (split_lines (snd m)) of
           [] \<Rightarrow> None
         | l # _ \<Rightarrow> Some \<lparr>line = strip l, doc = doc_comment\<rparr>)
      else None)"

definition get_sections :: "str \<Rightarrow> doc_section list" where
  "get_sections code =
     (let sections = List.map_filter primary_section (primary_matches code) in
      if sections = [] then List.map_filter fallback_section (fallback_matches code)
      else sections)"

section \<open>The document\<close>

text \<open>The loop \<open>for section in sections: out.append(self._from_section(...))\<close>.\<close>

fun from_sections ::
  "doc_section list \<Rightarrow> int \<Rightarrow> (tag \<Rightarrow> buffer \<Rightarrow> error + buffer) \<Rightarrow> str \<Rightarrow> error + str" where
  "from_sections [] headings_level fn_add_tags_markdown out = Inr out"
| "from_sections (sec # sections) headings_level fn_add_tags_markdown out =
     (case from_section sec headings_level fn_add_tags_markdown of
        Inl e \<Rightarrow> Inl e
      | Inr fragment \<Rightarrow> from_sections sections headings_level fn_add_tags_markdown (out @ fragment))"

definition from_doc :: "str \<Rightarrow> int \<Rightarrow> (tag \<Rightarrow> buffer \<Rightarrow> error + buffer) \<Rightarrow> error + str" where
  "from_doc code headings_level fn_add_tags_markdown =
     (case from_sections (get_sections code) headings_level fn_add_tags_markdown
             (replicate (nat headings_level) 35 @ lit '' Documentation'') of
        Inl e \<Rightarrow> Inl e
      | Inr out \<Rightarrow> Inr (out @ nl))"

definition from_javadoc :: "str \<Rightarrow> int \<Rightarrow> error + str" where
  "from_javadoc code headings_level = from_doc code headings_level process_tags"

section \<open>Notions used in the statements\<close>

text \<open>The literals that \<open>process_tags\<close> compares a key with, in the order of its branches.\<close>

definition policy_keys :: "str list" where
  "policy_keys =
     [lit ''abstract'', lit ''access'', lit ''author'', lit ''copyright'', lit ''exports'',
      lit ''license'', lit ''link'', lit ''package'', lit ''since'', lit ''static'',
      lit ''subpackage'', lit ''constructor'', lit ''deprecated'', lit ''private'',
      lit ''exception'', lit ''throws'', lit ''param'', lit ''return'', lit ''returns'',
      lit ''see'', lit ''this'', lit ''todo'', lit ''version'']"

text \<open>
  What \<open>process_tags\<close> adds for one tag: the calls of \<open>add_to_buffer\<close> it makes, read off
  the buffer it leaves when it starts from the empty one.
\<close>

definition tag_entry :: "tag \<Rightarrow> (str \<times> str option) list" where
  "tag_entry t =
     (case process_tags t [] of
        Inr b \<Rightarrow> concat (map (\<lambda>(g, es). map (Pair g) es) b)
      | Inl e \<Rightarrow> [])"

text \<open>The distinct elements of a list, each at the place of its first occurrence.\<close>

fun first_occ :: "'a list \<Rightarrow> 'a list" where
  "first_occ [] = []"
| "first_occ (x # xs) = x # filter (\<lambda>y. y \<noteq> x) (first_occ xs)"

text \<open>
  The parts of a section that \<open>_from_section\<close> works with: the tags extracted from its
  comment, everything it writes before the tag groups (heading and description), and the
  additions the tags make to the buffer, in the order of the tags.
\<close>

definition section_tags :: "doc_section \<Rightarrow> tag list" where
  "section_tags sec = get_doc_tags (tl (split_at_tags True (doc sec)))"

definition section_head :: "doc_section \<Rightarrow> int \<Rightarrow> str" where
  "section_head sec headings_level =
     (let out1 = nl @ nl @ replicate (nat (headings_level + 1)) 35 @ lit '' `'' @
                 get_field_declaration (line sec) @ lit ''`'';
          description = get_doc_description (hd (split_at_tags True (doc sec)))
      in if description \<noteq> [] then out1 @ nl @ nl @ description else out1)"

definition section_entries :: "doc_section \<Rightarrow> (str \<times> str option) list" where
  "section_entries sec = concat (map tag_entry (section_tags sec))"

text \<open>Inputs used as examples.\<close>

definition code_import_only :: str where
  "code_import_only = lit ''/** D */'' @ nl @ lit ''import a.B;''"

definition code_blank_comment :: str where
  "code_blank_comment = lit ''/** */int x;''"

definition sec_sum :: doc_section where
  "sec_sum = \<lparr>line = lit ''int f(int a) {'',
              doc = lit ''* Sum.'' @ nl @ lit '' * @return r'' @ nl @ lit '' * @param a x'' @ nl @
                    lit '' * @param b y'' @ nl @ lit '' * @return q''\<rparr>"

definition sec_deprecated :: doc_section where
  "sec_deprecated = \<lparr>line = lit ''void g();'', doc = lit ''* @deprecated''\<rparr>"

section \<open>Facts about the string operations\<close>

lemma dropWhile_id: "xs = [] \<or> \<not> P (hd xs) \<Longrightarrow> dropWhile P xs = xs"
  by (cases xs) auto

lemma strip_core:
  assumes "s = [] \<or> (\<not> is_space (hd s) \<and> \<not> is_space (last s))"
  shows "strip s = s"
proof (cases "s = []")
  case True
  then show ?thesis by (simp add: strip_def)
next
  case False
  with assms have h: "\<not> is_space (hd s)" and l: "\<not> is_space (last s)" by auto
  have "dropWhile is_space s = s" using h by (simp add: dropWhile_id)
  moreover have "dropWhile is_space (rev s) = rev s"
    using l False by (intro dropWhile_id) (simp add: hd_rev)
  ultimately show ?thesis by (simp add: strip_def)
qed

lemma strip_no_space: "\<forall>c\<in>set s. \<not> is_space c \<Longrightarrow> strip s = s"
  by (rule strip_core) (cases s, auto)

lemma strip_sandwich:
  assumes pre: "\<forall>c\<in>set pre. is_space c" and post: "\<forall>c\<in>set post. is_space c"
    and mid: "mid \<noteq> []" "\<not> is_space (hd mid)" "\<not> is_space (last mid)"
  shows "strip (pre @ mid @ post) = mid"
proof -
  have a: "dropWhile is_space (pre @ mid @ post) = mid @ post"
    using pre mid by (simp add: dropWhile_append2 dropWhile_append3 dropWhile_id hd_append)
  have "dropWhile is_space (rev post @ rev mid) = rev mid"
  proof -
    have "dropWhile is_space (rev post @ rev mid) = dropWhile is_space (rev mid)"
      by (rule dropWhile_append2) (use post in auto)
    also have "\<dots> = rev mid" using mid by (intro dropWhile_id) (simp add: hd_rev)
    finally show ?thesis .
  qed
  with a show ?thesis by (simp add: strip_def)
qed

lemma re_split_ws_no_space: "\<forall>c\<in>set s. \<not> is_space c \<Longrightarrow> re_split_ws lim s = [s]"
proof -
  assume a: "\<forall>c\<in>set s. \<not> is_space c"
  then have "dropWhile (\<lambda>c. \<not> is_space c) s = []" by simp
  then show ?thesis by (subst re_split_ws.simps) (simp add: Let_def)
qed

lemma re_split_ws_stop: "re_split_ws (Some 0) s = [s]"
  by (subst re_split_ws.simps) (simp add: Let_def)

lemma re_split_ws_once:
  assumes tok: "\<forall>c\<in>set tok. \<not> is_space c"
    and ws: "ws \<noteq> []" "\<forall>c\<in>set ws. is_space c"
    and rest: "rest = [] \<or> \<not> is_space (hd rest)"
  shows "re_split_ws (Some 1) (tok @ ws @ rest) = [tok, rest]"
proof -
  from ws obtain w ws' where w: "ws = w # ws'" "is_space w" by (cases ws) auto
  have d: "dropWhile (\<lambda>c. \<not> is_space c) (tok @ ws @ rest) = ws @ rest"
    using tok w by (simp add: dropWhile_append2 del: dropWhile_append3)
  have t: "takeWhile (\<lambda>c. \<not> is_space c) (tok @ ws @ rest) = tok"
    using tok w by (simp add: takeWhile_append2)
  have r: "dropWhile is_space (ws @ rest) = rest"
    using ws rest by (simp add: dropWhile_append2 dropWhile_id)
  show ?thesis
    by (subst re_split_ws.simps) (simp add: Let_def d t r re_split_ws_stop ws(1))
qed

lemma tokenize_length: "length (tokenize text 2) = 2"
proof -
  have "\<And>lim s. re_split_ws lim s \<noteq> []"
    by (subst re_split_ws.simps) (simp add: Let_def)
  then have "\<And>lim s. 1 \<le> length (re_split_ws lim s)"
    by (simp add: Suc_le_eq)
  then have "length (re_split_ws (Some 1) (strip text)) \<ge> 1" by blast
  then show ?thesis by (auto simp: tokenize_def Let_def)
qed

lemma fmt_split_two: "fmt_split [a, b] = Inr (lit ''`'' @ a @ lit ''` '' @ emdash @ lit '' '' @ b)"
  by (simp add: fmt_split_def index_def)

lemma fmt_split_tokenize: "\<exists>a b. tokenize text 2 = [a, b]"
proof -
  have "length (tokenize text 2) = 2" by (rule tokenize_length)
  then show ?thesis by (cases "tokenize text 2" rule: list.exhaust) (auto simp: length_Suc_conv)
qed


lemma fmt_split_total:
  "\<exists>a b. tokenize text 2 = [a, b] \<and>
     fmt_split (tokenize text 2) = Inr (lit ''`'' @ a @ lit ''` '' @ emdash @ lit '' '' @ b)"
proof -
  obtain a b where "tokenize text 2 = [a, b]" using fmt_split_tokenize by blast
  then show ?thesis by (simp add: fmt_split_two)
qed

lemma process_tags_entry:
  "process_tags t buf = Inr (fold (\<lambda>(g, v). add_to_buffer g v) (tag_entry t) buf)"
proof -
  obtain a b where ab: "fmt_split (tokenize (val t) 2) = Inr (lit ''`'' @ a @ lit ''` '' @ emdash @ lit '' '' @ b)"
    using fmt_split_total by blast
  show ?thesis
    unfolding tag_entry_def process_tags_def ab by simp
qed

lemma tag_entry_length: "length (tag_entry t) \<le> 1"
proof -
  obtain a b where ab: "fmt_split (tokenize (val t) 2) = Inr (lit ''`'' @ a @ lit ''` '' @ emdash @ lit '' '' @ b)"
    using fmt_split_total by blast
  show ?thesis
    unfolding tag_entry_def process_tags_def ab by simp
qed

text \<open>The additions of one tag, branch by branch.\<close>

lemma fmt_split_tokens:
  "fmt_split (tokenize text 2) =
     Inr (lit ''`'' @ tokenize text 2 ! 0 @ lit ''` '' @ emdash @ lit '' '' @ tokenize text 2 ! 1)"
proof -
  obtain a b where "tokenize text 2 = [a, b]" using fmt_split_tokenize by blast
  then show ?thesis by (simp add: fmt_split_two)
qed

lemma tag_entry_cases:
  "tag_entry t =
     (if key t \<in> set [lit ''abstract'', lit ''access'', lit ''author'', lit ''copyright'',
                      lit ''exports'', lit ''license'', lit ''link'', lit ''package'',
                      lit ''since'', lit ''static'', lit ''subpackage'']
      then [(title (key t), Some (val t))]
      else if key t \<in> set [lit ''constructor'', lit ''deprecated'', lit ''private'']
      then [(title (key t), None)]
      else if key t \<in> set [lit ''exception'', lit ''throws'']
      then [(lit ''Exceptions'',
             Some (lit ''`'' @ tokenize (val t) 2 ! 0 @ lit ''` '' @ emdash @ lit '' '' @
                   tokenize (val t) 2 ! 1))]
      else if key t = lit ''param''
      then [(lit ''Parameters'',
             Some (lit ''`'' @ tokenize (val t) 2 ! 0 @ lit ''` '' @ emdash @ lit '' '' @
                   tokenize (val t) 2 ! 1))]
      else if key t \<in> set [lit ''return'', lit ''returns'']
      then [(lit ''Returns'', Some (val t))]
      else if key t = lit ''see'' then [(lit ''See also'', Some (val t))]
      else if key t = lit ''this'' then [(lit ''This'', Some (lit ''`'' @ val t @ lit ''`''))]
      else if key t = lit ''todo'' then [(lit ''To-do'', Some (val t))]
      else if key t = lit ''version'' then [(lit ''Version'', Some (val t))]
      else [])"
  unfolding tag_entry_def process_tags_def fmt_split_tokens by simp

lemma process_tags_unlisted: "key t \<notin> set policy_keys \<Longrightarrow> process_tags t buf = Inr buf"
  by (simp add: process_tags_def policy_keys_def)

lemma policy_keys_lower: "k \<in> set policy_keys \<Longrightarrow> map to_lower k = k"
  by (auto simp: policy_keys_def lit_def to_lower_def)


lemma tokenize_single: "\<forall>c\<in>set v. \<not> is_space c \<Longrightarrow> tokenize v 2 = [v, []]"
  by (simp add: tokenize_def strip_no_space re_split_ws_no_space numeral_2_eq_2)

lemma tokenize_split:
  assumes pre: "\<forall>c\<in>set pre. is_space c" and post: "\<forall>c\<in>set post. is_space c"
    and tok: "tok \<noteq> []" "\<forall>c\<in>set tok. \<not> is_space c"
    and ws: "ws \<noteq> []" "\<forall>c\<in>set ws. is_space c"
    and desc: "desc \<noteq> []" "\<not> is_space (hd desc)" "\<not> is_space (last desc)"
  shows "tokenize (pre @ tok @ ws @ desc @ post) 2 = [tok, desc]"
proof -
  have "strip (pre @ (tok @ ws @ desc) @ post) = tok @ ws @ desc"
    using pre post tok desc by (intro strip_sandwich) (auto simp: hd_append)
  moreover have "re_split_ws (Some 1) (tok @ ws @ desc) = [tok, desc]"
    using tok ws desc by (intro re_split_ws_once) auto
  ultimately show ?thesis using tok by (simp add: tokenize_def numeral_2_eq_2)
qed

section \<open>Facts about the buffer and the rendering of a section\<close>

lemma split_at_tags_nonempty: "split_at_tags bol s \<noteq> []"
  by (subst split_at_tags.simps) (auto split: option.splits list.splits)

lemma from_section_unfold:
  "from_section sec h f =
     (if get_field_declaration (line sec) = [] then Inr []
      else if section_tags sec = [] then Inr (section_head sec h)
      else (case add_all_tags f (section_tags sec) [] of
              Inl e \<Rightarrow> Inl e
            | Inr b \<Rightarrow> Inr (section_head sec h @ nl @ from_tag_groups b)))"
proof -
  obtain p ps where sp: "split_at_tags True (doc sec) = p # ps"
    using split_at_tags_nonempty [of True "doc sec"] by (cases "split_at_tags True (doc sec)") auto
  show ?thesis
    by (simp add: from_section_def section_tags_def section_head_def sp Let_def
             split: sum.splits)
qed

lemma add_all_tags_process:
  "add_all_tags process_tags ts buf =
     Inr (fold (\<lambda>(g, v). add_to_buffer g v) (concat (map tag_entry ts)) buf)"
  by (induction ts arbitrary: buf) (simp_all add: process_tags_entry)

lemma set_first_occ: "set (first_occ xs) = set xs"
  by (induction xs) auto

lemma distinct_first_occ: "distinct (first_occ xs)"
  by (induction xs) (auto simp: set_first_occ)

lemma first_occ_snoc:
  "first_occ (xs @ [x]) = (if x \<in> set xs then first_occ xs else first_occ xs @ [x])"
  by (induction xs) (auto simp: set_first_occ)

lemma add_to_buffer_present:
  "distinct L \<Longrightarrow> g \<in> set L \<Longrightarrow>
   add_to_buffer g v (map (\<lambda>h. (h, E h)) L) =
     map (\<lambda>h. (h, if h = g then E h @ [v] else E h)) L"
  by (induction L) auto

lemma add_to_buffer_absent:
  "g \<notin> set L \<Longrightarrow>
   add_to_buffer g v (map (\<lambda>h. (h, E h)) L) = map (\<lambda>h. (h, E h)) L @ [(g, [v])]"
  by (induction L) auto

lemma fold_add_to_buffer:
  "fold (\<lambda>(g, v). add_to_buffer g v) ps [] =
     map (\<lambda>g. (g, map snd (filter (\<lambda>p. fst p = g) ps))) (first_occ (map fst ps))"
proof (induction ps rule: rev_induct)
  case Nil
  then show ?case by simp
next
  case (snoc p ps)
  obtain g v where p: "p = (g, v)" by (cases p)
  let ?E = "\<lambda>h. map snd (filter (\<lambda>q. fst q = h) ps)"
  let ?L = "first_occ (map fst ps)"
  have step: "fold (\<lambda>(g, v). add_to_buffer g v) (ps @ [p]) [] =
      add_to_buffer g v (map (\<lambda>h. (h, ?E h)) ?L)"
    using snoc.IH p by simp
  show ?case
  proof (cases "g \<in> set (map fst ps)")
    case True
    then have "g \<in> set ?L" by (simp add: set_first_occ)
    then have "add_to_buffer g v (map (\<lambda>h. (h, ?E h)) ?L) =
        map (\<lambda>h. (h, if h = g then ?E h @ [v] else ?E h)) ?L"
      by (intro add_to_buffer_present distinct_first_occ)
    with step True show ?thesis by (simp add: p first_occ_snoc)
  next
    case False
    then have "g \<notin> set ?L" by (simp add: set_first_occ)
    then have "add_to_buffer g v (map (\<lambda>h. (h, ?E h)) ?L) = map (\<lambda>h. (h, ?E h)) ?L @ [(g, [v])]"
      by (rule add_to_buffer_absent)
    moreover have "filter (\<lambda>q. fst q = g) ps = []"
      using False by (auto simp: filter_empty_conv)
    ultimately show ?thesis using step False \<open>g \<notin> set ?L\<close>
      by (auto simp: p first_occ_snoc)
  qed
qed

lemma from_tag_group_marker: "from_tag_group name [None] = nl @ lit '' * **'' @ name @ lit ''**''"
  by (simp add: from_tag_group_def)

lemma process_tags_marker:
  "process_tags \<lparr>key = lit ''constructor'', val = v\<rparr> buf =
     Inr (add_to_buffer (lit ''Constructor'') None buf)"
  "process_tags \<lparr>key = lit ''deprecated'', val = v\<rparr> buf =
     Inr (add_to_buffer (lit ''Deprecated'') None buf)"
  "process_tags \<lparr>key = lit ''private'', val = v\<rparr> buf =
     Inr (add_to_buffer (lit ''Private'') None buf)"
  by (simp_all add: process_tags_def lit_def title_def to_upper_def to_lower_def is_alpha_def)

section \<open>Facts about tag extraction and section extraction\<close>

lemma alpha_not_space: "is_alpha c \<Longrightarrow> \<not> is_space c"
  by (auto simp: is_alpha_def is_space_def)

lemma collapse_ws_no_space: "\<forall>c\<in>set s. \<not> is_space c \<Longrightarrow> collapse_ws b s = s"
  by (induction s arbitrary: b) auto

lemma clean_single_line_alpha:
  assumes "list_all is_alpha k"
  shows "clean_single_line k = k"
proof -
  have ns: "\<forall>c\<in>set k. \<not> is_space c"
    using assms by (auto simp: list_all_iff alpha_not_space)
  have "map (\<lambda>c. if c = 10 \<or> c = 13 \<or> c = 9 then 32 else c) k = k"
    using assms by (intro map_idI) (auto simp: list_all_iff is_alpha_def)
  then show ?thesis
    by (simp add: clean_single_line_def clean_line_def strip_no_space [OF ns]
             collapse_ws_no_space [OF ns])
qed

lemma tag_match_key:
  assumes "tag_match l = Some (k, v)"
  shows "k \<noteq> [] \<and> list_all is_alpha k"
proof -
  from assms obtain cs where "k = takeWhile is_alpha cs" and "k \<noteq> []"
    by (auto simp: tag_match_def split: list.splits if_splits)
  then show ?thesis by (auto simp: list_all_iff dest: set_takeWhileD)
qed

lemma primary_match_group2:
  assumes "primary_match s = Some (g1, g2, r)"
  shows "g2 = [] \<or> \<not> is_space (hd g2)"
proof -
  from assms obtain after where c: "comment_match s = Some (g1, after)"
    by (cases "comment_match s") (auto simp: primary_match_def Let_def split: list.splits)
  define t where "t = dropWhile is_space after"
  have t: "t = [] \<or> \<not> is_space (hd t)"
    unfolding t_def by (metis hd_dropWhile)
  have tw: "takeWhile (\<lambda>c. \<not> is_stop c) t @ dropWhile (\<lambda>c. \<not> is_stop c) t = t" by simp
  show ?thesis
  proof (cases "dropWhile (\<lambda>c. \<not> is_stop c) t")
    case Nil
    with assms c tw have "g2 = t"
      by (simp add: primary_match_def Let_def t_def [symmetric])
    with t show ?thesis by simp
  next
    case (Cons d ds)
    with assms c have g2: "g2 = takeWhile (\<lambda>c. \<not> is_stop c) t @ [d]"
      by (simp add: primary_match_def Let_def t_def [symmetric])
    from Cons tw have "t = g2 @ ds" by (simp add: g2)
    moreover have "g2 \<noteq> []" by (simp add: g2)
    ultimately have "hd g2 = hd t" "t \<noteq> []" by auto
    with t show ?thesis by simp
  qed
qed

lemma primary_matches_group2:
  "(g1, g2) \<in> set (primary_matches code) \<Longrightarrow> g2 = [] \<or> \<not> is_space (hd g2)"
proof (induction code rule: primary_matches.induct)
  case (1 code)
  show ?case
  proof (cases code)
    case Nil
    with "1.prems" show ?thesis by (simp add: primary_matches.simps)
  next
    case (Cons c cs)
    show ?thesis
    proof (cases "primary_match code")
      case None
      have "primary_matches code = primary_matches cs"
        by (subst primary_matches.simps) (simp add: Cons None [unfolded Cons])
      with "1.prems" have "(g1, g2) \<in> set (primary_matches cs)" by simp
      with "1.IH"(1) [OF Cons None] show ?thesis .

    next
      case (Some m)
      obtain a b r where m: "m = (a, b, r)" by (cases m)
      have "primary_matches code = (a, b) # primary_matches r"
        by (subst primary_matches.simps) (simp add: Cons Some [unfolded Cons m])
      with "1.prems" have "(g1, g2) = (a, b) \<or> (g1, g2) \<in> set (primary_matches r)"
        by simp
      then show ?thesis
      proof
        assume "(g1, g2) = (a, b)"
        with Some m primary_match_group2 [of code a b r] show ?thesis by simp
      next
        assume "(g1, g2) \<in> set (primary_matches r)"
        with "1.IH"(2) [OF Cons Some, of a "(b, r)" b r] m show ?thesis by simp
      qed
    qed
  qed
qed

lemma strip_empty_iff: "strip s = [] \<longleftrightarrow> (\<forall>c\<in>set s. is_space c)"
proof
  assume "strip s = []"
  then have "\<forall>c\<in>set (dropWhile is_space s). is_space c"
    by (simp add: strip_def dropWhile_eq_Nil_conv)
  then have "dropWhile is_space s = []"
    by (metis hd_dropWhile list.set_sel(1))
  then show "\<forall>c\<in>set s. is_space c" by (simp add: dropWhile_eq_Nil_conv)
next
  assume "\<forall>c\<in>set s. is_space c"
  then have d: "dropWhile is_space s = []" by (simp add: dropWhile_eq_Nil_conv)
  show "strip s = []" unfolding strip_def d by simp
qed

section \<open>The examples, evaluated\<close>

text \<open>The equations that unfold the program on a concrete input.\<close>

lemmas eval_simps = lit_def nl_def emdash_def is_space_def is_tabsp_def is_alpha_def is_crlf_def
  strip_def startswith_def str_replace.simps to_upper_def to_lower_def title_def clean_line_def
  clean_single_line_def re_split_ws.simps tokenize_def index_def fmt_split_def process_tags_def
  fmt_entry_def from_tag_group_def wrap_match_def sub_wraps.simps tag_match_def
  sub_star_prefix_def sub_open_prefix_def close_match_def code_word_def code_open_def
  code_close_def code_match_def replace_html_with_markdown.simps clean_doc_line_def
  get_doc_description_def get_field_declaration_def tag_sep_match_def split_at_tags.simps
  from_tag_groups_def from_section_def comment_match_def is_stop_def primary_match_def
  primary_matches.simps fallback_matches.simps primary_section_def fallback_section_def
  get_sections_def from_doc_def from_javadoc_def Let_def List.map_filter_def

lemma import_only_primary:
  "primary_matches code_import_only = [(lit '' D '', lit ''import a.B;'')]"
  by (simp add: code_import_only_def eval_simps find_comment_close.simps)

lemma import_only_primary_section:
  "primary_section (lit '' D '', lit ''import a.B;'') = None"
  by (simp add: eval_simps)

lemma import_only_fallback:
  "fallback_matches code_import_only = [(lit '' D '', nl @ lit ''import a.B;'')]"
  by (simp add: code_import_only_def eval_simps)

lemma import_only_fallback_section:
  "fallback_section (lit '' D '', nl @ lit ''import a.B;'') =
     Some \<lparr>line = lit ''import a.B;'', doc = lit '' D ''\<rparr>"
  by (simp add: eval_simps)

lemma blank_comment_primary:
  "primary_matches code_blank_comment = [(lit '' '', lit ''int x;'')]"
  by (simp add: code_blank_comment_def eval_simps)

lemma blank_comment_primary_section:
  "primary_section (lit '' '', lit ''int x;'') = Some \<lparr>line = lit ''int x;'', doc = lit ''* ''\<rparr>"
  by (simp add: eval_simps)

lemma sec_sum_field: "get_field_declaration (line sec_sum) = lit ''int f(int a)''"
  by (simp add: sec_sum_def eval_simps)

lemma sec_sum_split:
  "split_at_tags True (doc sec_sum) =
     [lit ''* Sum.'' @ nl, lit ''@return r'' @ nl, lit ''@param a x'' @ nl,
      lit ''@param b y'' @ nl, lit ''@return q'']"
  by (simp add: sec_sum_def eval_simps)

lemma sec_sum_description: "get_doc_description (lit ''* Sum.'' @ nl) = lit ''Sum.''"
  by (simp add: eval_simps)

lemma sec_sum_tags:
  "section_tags sec_sum =
     [\<lparr>key = lit ''return'', val = lit ''r''\<rparr>, \<lparr>key = lit ''param'', val = lit ''a x''\<rparr>,
      \<lparr>key = lit ''param'', val = lit ''b y''\<rparr>, \<lparr>key = lit ''return'', val = lit ''q''\<rparr>]"
  by (simp add: section_tags_def sec_sum_split) (simp add: eval_simps)

lemma sec_sum_head:
  "section_head sec_sum 1 = nl @ nl @ lit ''## `int f(int a)`'' @ nl @ nl @ lit ''Sum.''"
  by (simp add: section_head_def sec_sum_field sec_sum_split sec_sum_description Let_def)
     (simp add: lit_def nl_def numeral_2_eq_2)

lemma tag_entry_return: "tag_entry \<lparr>key = lit ''return'', val = v\<rparr> = [(lit ''Returns'', Some v)]"
  by (simp add: tag_entry_def process_tags_def lit_def)

lemma tag_entry_param_a: "tag_entry \<lparr>key = lit ''param'', val = lit ''a x''\<rparr> =
    [(lit ''Parameters'', Some (lit ''`a` '' @ emdash @ lit '' x''))]"
  by (simp add: tag_entry_def eval_simps)

lemma tag_entry_param_b: "tag_entry \<lparr>key = lit ''param'', val = lit ''b y''\<rparr> =
    [(lit ''Parameters'', Some (lit ''`b` '' @ emdash @ lit '' y''))]"
  by (simp add: tag_entry_def eval_simps)

lemma sec_sum_entries:
  "section_entries sec_sum =
     [(lit ''Returns'', Some (lit ''r'')),
      (lit ''Parameters'', Some (lit ''`a` '' @ emdash @ lit '' x'')),
      (lit ''Parameters'', Some (lit ''`b` '' @ emdash @ lit '' y'')),
      (lit ''Returns'', Some (lit ''q''))]"
  by (simp add: section_entries_def sec_sum_tags tag_entry_return tag_entry_param_a
        tag_entry_param_b)

lemma deprecated_split:
  "split_at_tags True (lit ''* @deprecated use foo instead'') = [[], lit ''@deprecated use foo instead'']"
  "split_at_tags True (lit ''* @deprecated'') = [[], lit ''@deprecated'']"
  by (simp_all add: eval_simps)

lemma deprecated_tags:
  "get_doc_tags [lit ''@deprecated use foo instead''] =
     [\<lparr>key = lit ''deprecated'', val = lit ''use foo instead''\<rparr>]"
  "get_doc_tags [lit ''@deprecated''] = [\<lparr>key = lit ''deprecated'', val = []\<rparr>]"
  by (simp_all add: eval_simps)

lemma deprecated_section_tags:
  "section_tags \<lparr>line = l, doc = lit ''* @deprecated use foo instead''\<rparr> =
     [\<lparr>key = lit ''deprecated'', val = lit ''use foo instead''\<rparr>]"
  "section_tags \<lparr>line = l, doc = lit ''* @deprecated''\<rparr> =
     [\<lparr>key = lit ''deprecated'', val = []\<rparr>]"
  by (simp_all add: section_tags_def deprecated_split deprecated_tags del: get_doc_tags.simps)

lemma deprecated_section_head:
  "section_head \<lparr>line = l, doc = lit ''* @deprecated use foo instead''\<rparr> h =
   section_head \<lparr>line = l, doc = lit ''* @deprecated''\<rparr> h"
  by (simp add: section_head_def deprecated_split)

lemma deprecated_render:
  "from_section \<lparr>line = l, doc = lit ''* @deprecated use foo instead''\<rparr> h process_tags =
   from_section \<lparr>line = l, doc = lit ''* @deprecated''\<rparr> h process_tags"
  by (simp add: from_section_unfold deprecated_section_tags deprecated_section_head
        process_tags_marker)

lemma sec_deprecated_field: "get_field_declaration (line sec_deprecated) = lit ''void g()''"
  by (simp add: sec_deprecated_def eval_simps)

lemma sec_deprecated_tags:
  "section_tags sec_deprecated = [\<lparr>key = lit ''deprecated'', val = []\<rparr>]"
  by (simp add: sec_deprecated_def deprecated_section_tags)

lemma empty_description: "get_doc_description [] = []"
  by (simp add: eval_simps)

lemma sec_deprecated_split:
  "split_at_tags True (doc sec_deprecated) = [[], lit ''@deprecated'']"
  by (simp add: sec_deprecated_def deprecated_split)

lemma sec_deprecated_head: "section_head sec_deprecated 1 = nl @ nl @ lit ''## `void g()`''"
  by (simp add: section_head_def sec_deprecated_field sec_deprecated_split empty_description
        Let_def)
     (simp add: lit_def nl_def numeral_2_eq_2)

lemma sec_deprecated_render:
  "from_section sec_deprecated 1 process_tags =
     Inr (nl @ nl @ lit ''## `void g()`'' @ nl @ nl @ lit '' * **Deprecated**'')"
  by (simp add: from_section_unfold sec_deprecated_field sec_deprecated_tags sec_deprecated_head
        process_tags_marker from_tag_groups_def from_tag_group_marker)
     (simp add: lit_def)

section \<open>Claims\<close>

text \<open>
  C1, as the program has it. The key is compared with the literals of \<open>process_tags\<close> as it
  is written, letter case included: a tag whose key differs from a literal only in letter
  case is none of the literals, and \<open>process_tags\<close> leaves the buffer as it was.
\<close>

theorem process_tags_case_sensitive:
  assumes "map to_lower (key t) \<in> set policy_keys" and "key t \<noteq> map to_lower (key t)"
  shows "key t \<notin> set policy_keys \<and> process_tags t buf = Inr buf"
proof -
  have "key t \<notin> set policy_keys" using assms(2) policy_keys_lower [of "key t"] by auto
  then show ?thesis by (simp add: process_tags_unlisted)
qed

text \<open>C1, an instance: the key Param.\<close>

theorem process_tags_case_sensitive_witness:
  "map to_lower (lit ''Param'') = lit ''param'' \<and> lit ''param'' \<in> set policy_keys \<and>
   lit ''Param'' \<notin> set policy_keys \<and>
   process_tags \<lparr>key = lit ''Param'', val = lit ''x''\<rparr> [] = Inr []"
proof -
  have a: "map to_lower (key \<lparr>key = lit ''Param'', val = lit ''x''\<rparr>) \<in> set policy_keys"
    by (simp add: policy_keys_def lit_def to_lower_def)
  have b: "key \<lparr>key = lit ''Param'', val = lit ''x''\<rparr> \<noteq> map to_lower (key \<lparr>key = lit ''Param'', val = lit ''x''\<rparr>)"
    by (simp add: lit_def to_lower_def)
  have c: "map to_lower (lit ''Param'') = lit ''param''" by (simp add: lit_def to_lower_def)
  show ?thesis
    using process_tags_case_sensitive [OF a b, of "[]"] a c by simp
qed

text \<open>
  C1 as stated fails: the keys Param and RETURN add nothing to the buffer, where param and
  return add an entry to Parameters and to Returns.
\<close>

theorem process_tags_capitalised_key_dropped:
  "process_tags \<lparr>key = lit ''Param'', val = lit ''x y''\<rparr> [] \<noteq>
     process_tags \<lparr>key = lit ''param'', val = lit ''x y''\<rparr> [] \<and>
   process_tags \<lparr>key = lit ''Param'', val = lit ''x y''\<rparr> [] = Inr [] \<and>
   process_tags \<lparr>key = lit ''param'', val = lit ''x y''\<rparr> [] =
     Inr [(lit ''Parameters'', [Some (lit ''`x` '' @ emdash @ lit '' y'')])] \<and>
   process_tags \<lparr>key = lit ''RETURN'', val = lit ''x y''\<rparr> [] = Inr [] \<and>
   process_tags \<lparr>key = lit ''return'', val = lit ''x y''\<rparr> [] =
     Inr [(lit ''Returns'', [Some (lit ''x y'')])]"
proof -
  have tk: "tokenize [120, 32, 121] 2 = [[120], [121]]"
    using tokenize_split [of "[]" "[]" "[120]" "[32]" "[121]"] by (simp add: is_space_def)
  show ?thesis by (simp add: process_tags_def lit_def tk fmt_split_two)
qed

text \<open>
  C2 on the input whose only comment is followed by an import statement. The primary loop
  skips the match; the section list is then empty, the fallback loop runs, and it appends a
  section whose declaration is the import statement.
\<close>

theorem fallback_keeps_import_section:
  "primary_matches code_import_only = [(lit '' D '', lit ''import a.B;'')] \<and>
   get_sections code_import_only = [\<lparr>line = lit ''import a.B;'', doc = lit '' D ''\<rparr>] \<and>
   startswith (lit ''import a.B;'') (lit ''import'')"
  by (simp add: get_sections_def List.map_filter_def import_only_primary
        import_only_primary_section import_only_fallback import_only_fallback_section)
     (simp add: startswith_def lit_def)

text \<open>
  C3, as the program has it. A primary match is discarded when its comment body is the empty
  string or its declaration candidate is empty after trimming (the pattern takes the
  whitespace before the declaration, so a declaration that trims to nothing is empty). A
  comment body that is not empty but all whitespace is kept: with a declaration that is not
  an import, the section is appended with the comment \<open>* \<close>.
\<close>

theorem primary_match_discarded_when_empty:
  assumes "(g1, g2) \<in> set (primary_matches code)"
  shows "(g1 = [] \<or> strip g2 = [] \<longrightarrow> primary_section (g1, g2) = None) \<and>
    (g1 \<noteq> [] \<and> strip g1 = [] \<and> g2 \<noteq> [] \<and> \<not> startswith (strip g2) (lit ''import'') \<longrightarrow>
       primary_section (g1, g2) = Some \<lparr>line = strip g2, doc = lit ''* ''\<rparr>)"
proof -
  have "strip g2 = [] \<Longrightarrow> g2 = []"
  proof (rule ccontr)
    assume s: "strip g2 = []" and ne: "g2 \<noteq> []"
    with primary_matches_group2 [OF assms] have "\<not> is_space (hd g2)" by simp
    moreover from s have "\<forall>c\<in>set g2. is_space c" by (simp add: strip_empty_iff)
    ultimately show False using ne by (metis list.set_sel(1))
  qed
  then show ?thesis
    by (auto simp: primary_section_def Let_def startswith_def lit_def)
qed

text \<open>C3, instances: an empty comment body, an empty declaration, a blank comment body.\<close>

theorem primary_match_discarded_when_empty_witness:
  "primary_matches (lit ''/***/;'') = [([], lit '';'')] \<and>
   primary_section ([], lit '';'') = None \<and>
   primary_matches (lit ''/** a */'') = [(lit '' a '', [])] \<and>
   primary_section (lit '' a '', []) = None \<and>
   primary_section (lit '' '', lit ''int x;'') = Some \<lparr>line = lit ''int x;'', doc = lit ''* ''\<rparr>"
proof -
  have a: "primary_matches (lit ''/***/;'') = [([], lit '';'')]" by (simp add: eval_simps)
  have b: "primary_matches (lit ''/** a */'') = [(lit '' a '', [])]" by (simp add: eval_simps)
  have c: "(lit '' '', lit ''int x;'') \<in> set (primary_matches code_blank_comment)"
    by (simp add: blank_comment_primary)
  have d: "strip (lit ''int x;'') = lit ''int x;''" "strip (lit '' '') = []"
    "\<not> startswith (lit ''int x;'') (lit ''import'')"
    by (simp_all add: eval_simps)
  have a': "([], lit '';'') \<in> set (primary_matches (lit ''/***/;''))" by (simp add: a)
  have b': "(lit '' a '', []) \<in> set (primary_matches (lit ''/** a */''))" by (simp add: b)
  have e: "strip [] = []" by (simp add: strip_def)
  show ?thesis
    using primary_match_discarded_when_empty [OF a'] primary_match_discarded_when_empty [OF b']
      primary_match_discarded_when_empty [OF c] a b d e
    by (simp add: lit_def)
qed

text \<open>
  C3 as stated fails: the comment body of \<open>/** */int x;\<close> is one space, empty after
  trimming, and the extractor returns a section for it.
\<close>

theorem blank_comment_kept:
  "primary_matches code_blank_comment = [(lit '' '', lit ''int x;'')] \<and>
   strip (lit '' '') = [] \<and>
   primary_section (lit '' '', lit ''int x;'') \<noteq> None \<and>
   get_sections code_blank_comment = [\<lparr>line = lit ''int x;'', doc = lit ''* ''\<rparr>]"
  by (simp add: get_sections_def List.map_filter_def blank_comment_primary
        blank_comment_primary_section) (simp add: eval_simps)

text \<open>
  C4. For a section with a declaration and at least one tag, the fragment is the heading and
  description, a line feed, and then one group per group name, the names in the order of
  their first addition to the buffer, each group holding the entries added under its name
  in the order of the tags.
\<close>

theorem tag_groups_in_first_occurrence_order:
  assumes "get_field_declaration (line sec) \<noteq> []" and "section_tags sec \<noteq> []"
  shows "from_section sec h process_tags =
     Inr (section_head sec h @ nl @
          concat (map (\<lambda>g. from_tag_group g
                              (map snd (filter (\<lambda>p. fst p = g) (section_entries sec))))
                      (first_occ (map fst (section_entries sec)))))"
  using assms
  by (simp add: from_section_unfold add_all_tags_process fold_add_to_buffer from_tag_groups_def
           section_entries_def comp_def)

text \<open>
  C4, an instance: return, param, param, return gives Returns before Parameters, which is
  neither the alphabetical order nor the order of the branches of \<open>process_tags\<close>.
\<close>

theorem tag_groups_in_first_occurrence_order_witness:
  "get_field_declaration (line sec_sum) \<noteq> [] \<and> section_tags sec_sum \<noteq> [] \<and>
   from_section sec_sum 1 process_tags =
     Inr (nl @ nl @ lit ''## `int f(int a)`'' @ nl @ nl @ lit ''Sum.'' @ nl @
          nl @ lit '' * **Returns:**'' @ nl @ lit ''   * r'' @ nl @ lit ''   * q'' @
          nl @ lit '' * **Parameters:**'' @ nl @ lit ''   * `a` '' @ emdash @ lit '' x'' @
          nl @ lit ''   * `b` '' @ emdash @ lit '' y'')"
proof -
  have f: "get_field_declaration (line sec_sum) \<noteq> []"
    by (simp add: sec_sum_field lit_def)
  have t: "section_tags sec_sum \<noteq> []" by (simp add: sec_sum_tags)
  have ne: "lit ''Returns'' \<noteq> lit ''Parameters''" by (simp add: lit_def)
  have "from_section sec_sum 1 process_tags =
     Inr (section_head sec_sum 1 @ nl @
          concat (map (\<lambda>g. from_tag_group g
                              (map snd (filter (\<lambda>p. fst p = g) (section_entries sec_sum))))
                      (first_occ (map fst (section_entries sec_sum)))))"
    by (rule tag_groups_in_first_occurrence_order [OF f t])
  also have "\<dots> = Inr (nl @ nl @ lit ''## `int f(int a)`'' @ nl @ nl @ lit ''Sum.'' @ nl @
          nl @ lit '' * **Returns:**'' @ nl @ lit ''   * r'' @ nl @ lit ''   * q'' @
          nl @ lit '' * **Parameters:**'' @ nl @ lit ''   * `a` '' @ emdash @ lit '' x'' @
          nl @ lit ''   * `b` '' @ emdash @ lit '' y'')"
    using ne by (simp add: sec_sum_head sec_sum_entries from_tag_group_def fmt_entry_def)
      (simp add: lit_def)
  finally show ?thesis using f t by simp
qed



text \<open>
  C6. A group whose only entry is the null entry of a marker tag is rendered as the bold
  label alone, with no colon and no value, wherever the group stands among the groups of
  the section.
\<close>

theorem lone_marker_group_is_bare_label:
  assumes "get_field_declaration (line sec) \<noteq> []"
    and "add_all_tags process_tags (section_tags sec) [] = Inr (b1 @ (g, [None]) # b2)"
  shows "from_tag_group g [None] = nl @ lit '' * **'' @ g @ lit ''**'' \<and>
    from_section sec h process_tags =
      Inr (section_head sec h @ nl @ from_tag_groups b1 @
           nl @ lit '' * **'' @ g @ lit ''**'' @ from_tag_groups b2)"
proof -
  have "section_tags sec \<noteq> []" using assms(2) by auto
  with assms show ?thesis
    by (simp add: from_section_unfold from_tag_groups_def from_tag_group_marker)
qed

text \<open>C6, an instance: a section whose only tag is deprecated.\<close>

theorem lone_marker_group_is_bare_label_witness:
  "get_field_declaration (line sec_deprecated) \<noteq> [] \<and>
   add_all_tags process_tags (section_tags sec_deprecated) [] = Inr [(lit ''Deprecated'', [None])] \<and>
   from_section sec_deprecated 1 process_tags =
     Inr (nl @ nl @ lit ''## `void g()`'' @ nl @ nl @ lit '' * **Deprecated**'')"
proof -
  have f: "get_field_declaration (line sec_deprecated) \<noteq> []"
    by (simp add: sec_deprecated_field lit_def)
  have b: "add_all_tags process_tags (section_tags sec_deprecated) [] =
      Inr ([] @ (lit ''Deprecated'', [None]) # [])"
    by (simp add: sec_deprecated_tags process_tags_marker)
  show ?thesis
    using lone_marker_group_is_bare_label [OF f b, of 1] f b
    by (simp add: sec_deprecated_head from_tag_groups_def) (simp add: lit_def)
qed



text \<open>
  C8. Every tag that \<open>_get_doc_tags\<close> returns has a key that is not empty and is made of
  ASCII letters; there is one tag for each line that matches the tag pattern, and the other
  lines are skipped.
\<close>

theorem tag_keys_alphabetic:
  "(\<forall>t\<in>set (get_doc_tags doc_lines). key t \<noteq> [] \<and> list_all is_alpha (key t)) \<and>
   length (get_doc_tags doc_lines) = length (filter (\<lambda>l. tag_match l \<noteq> None) doc_lines)"
proof (induction doc_lines)
  case Nil
  then show ?case by simp
next
  case (Cons l ls)
  show ?case
  proof (cases "tag_match l")
    case None
    with Cons show ?thesis by simp
  next
    case (Some kv)
    obtain k v where kv: "kv = (k, v)" by (cases kv)
    from Some kv have "k \<noteq> [] \<and> list_all is_alpha k" by (simp add: tag_match_key)
    with Cons Some kv show ?thesis by (simp add: clean_single_line_alpha)
  qed
qed

text \<open>C8, an instance: one line with a tag and three lines without.\<close>

theorem tag_keys_alphabetic_witness:
  "get_doc_tags [lit ''@param x'', lit ''@ bad'', lit ''no tag'', lit ''@1x''] =
     [\<lparr>key = lit ''param'', val = lit ''x''\<rparr>] \<and>
   lit ''param'' \<noteq> [] \<and> list_all is_alpha (lit ''param'')"
proof -
  have e: "get_doc_tags [lit ''@param x'', lit ''@ bad'', lit ''no tag'', lit ''@1x''] =
     [\<lparr>key = lit ''param'', val = lit ''x''\<rparr>]"
    by (simp add: eval_simps)
  show ?thesis
    using tag_keys_alphabetic
      [of "[lit ''@param x'', lit ''@ bad'', lit ''no tag'', lit ''@1x'']", unfolded e] e
    by (simp del: get_doc_tags.simps)
qed

text \<open>
  C9. For the keys constructor, deprecated and private the value of the tag is not used: the
  entry is null whatever the value. A section whose comment is deprecated with a payload
  renders as the section whose comment is the bare deprecated.
\<close>

theorem marker_payload_discarded:
  "process_tags \<lparr>key = lit ''constructor'', val = v\<rparr> buf =
     Inr (add_to_buffer (lit ''Constructor'') None buf) \<and>
   process_tags \<lparr>key = lit ''deprecated'', val = v\<rparr> buf =
     Inr (add_to_buffer (lit ''Deprecated'') None buf) \<and>
   process_tags \<lparr>key = lit ''private'', val = v\<rparr> buf =
     Inr (add_to_buffer (lit ''Private'') None buf) \<and>
   from_section \<lparr>line = l, doc = lit ''* @deprecated use foo instead''\<rparr> h process_tags =
     from_section \<lparr>line = l, doc = lit ''* @deprecated''\<rparr> h process_tags"
  using process_tags_marker [of v buf] deprecated_render [of l h] by simp

text \<open>C9, an instance.\<close>

theorem marker_payload_discarded_witness:
  "process_tags \<lparr>key = lit ''deprecated'', val = lit ''use foo instead''\<rparr> [] =
     Inr [(lit ''Deprecated'', [None])] \<and>
   from_section \<lparr>line = lit ''void g();'', doc = lit ''* @deprecated use foo instead''\<rparr> 1
       process_tags =
     Inr (nl @ nl @ lit ''## `void g()`'' @ nl @ nl @ lit '' * **Deprecated**'')"
  using marker_payload_discarded [of "lit ''use foo instead''" "[]" "lit ''void g();''" 1]
    sec_deprecated_render
  by (simp add: sec_deprecated_def)

text \<open>
  C10. The value split is total. \<open>_tokenize\<close> with limit 2 always returns exactly two tokens,
  so \<open>process_tags\<close> never indexes out of range and never fails. For a param, exception
  or throws tag whose value is empty or has no whitespace, the tokens are the value and the
  empty string, and the entry is the value in backquotes, a space, an em dash and a space,
  with an empty description.
\<close>

theorem split_tag_single_token:
  assumes "\<forall>c\<in>set v. \<not> is_space c"
  shows "length (tokenize w 2) = 2 \<and> (\<exists>b. process_tags t buf = Inr b) \<and>
    tokenize v 2 = [v, []] \<and>
    process_tags \<lparr>key = lit ''param'', val = v\<rparr> buf =
      Inr (add_to_buffer (lit ''Parameters'') (Some (lit ''`'' @ v @ lit ''` '' @ emdash @ lit '' '')) buf) \<and>
    process_tags \<lparr>key = lit ''exception'', val = v\<rparr> buf =
      Inr (add_to_buffer (lit ''Exceptions'') (Some (lit ''`'' @ v @ lit ''` '' @ emdash @ lit '' '')) buf) \<and>
    process_tags \<lparr>key = lit ''throws'', val = v\<rparr> buf =
      Inr (add_to_buffer (lit ''Exceptions'') (Some (lit ''`'' @ v @ lit ''` '' @ emdash @ lit '' '')) buf)"
proof -
  have tk: "tokenize v 2 = [v, []]" using assms by (rule tokenize_single)
  have "\<exists>b. process_tags t buf = Inr b" by (simp add: process_tags_entry)
  moreover have "process_tags \<lparr>key = lit ''param'', val = v\<rparr> buf =
      Inr (add_to_buffer (lit ''Parameters'') (Some (lit ''`'' @ v @ lit ''` '' @ emdash @ lit '' '')) buf)"
    by (simp add: process_tags_def tk fmt_split_two lit_def)
  moreover have "process_tags \<lparr>key = lit ''exception'', val = v\<rparr> buf =
      Inr (add_to_buffer (lit ''Exceptions'') (Some (lit ''`'' @ v @ lit ''` '' @ emdash @ lit '' '')) buf)"
    by (simp add: process_tags_def tk fmt_split_two lit_def)
  moreover have "process_tags \<lparr>key = lit ''throws'', val = v\<rparr> buf =
      Inr (add_to_buffer (lit ''Exceptions'') (Some (lit ''`'' @ v @ lit ''` '' @ emdash @ lit '' '')) buf)"
    by (simp add: process_tags_def tk fmt_split_two lit_def)
  ultimately show ?thesis using tk tokenize_length by simp
qed

theorem split_tag_single_token_witness:
  "tokenize (lit ''x'') 2 = [lit ''x'', []] \<and>
   process_tags \<lparr>key = lit ''param'', val = lit ''x''\<rparr> [] =
     Inr [(lit ''Parameters'', [Some (lit ''`x` '' @ emdash @ lit '' '')])] \<and>
   process_tags \<lparr>key = lit ''throws'', val = []\<rparr> [] =
     Inr [(lit ''Exceptions'', [Some (lit ''`` '' @ emdash @ lit '' '')])]"
proof -
  have a: "\<forall>c\<in>set (lit ''x''). \<not> is_space c" by (simp add: lit_def is_space_def)
  have b: "\<forall>c\<in>set ([] :: str). \<not> is_space c" by simp
  show ?thesis
    using split_tag_single_token [OF a, of "[]" "\<lparr>key = [], val = []\<rparr>" "[]"]
      split_tag_single_token [OF b, of "[]" "\<lparr>key = [], val = []\<rparr>" "[]"]
    by (simp add: lit_def)
qed

end
